theory Spec2Isabelle
  imports Complex_Main "HOL-Library.Char_ord" "HOL-Library.List_Lexorder"
begin

section \<open>Concert setlist analysis: the table and its queries\<close>

text \<open>
  The development follows \<^verbatim>\<open>concert_analysis.py\<close>, class \<^verbatim>\<open>JasonIsbellConcertData\<close>.
  The class keeps a pandas data frame with the columns \<^verbatim>\<open>Date\<close>, \<^verbatim>\<open>Venue\<close> and
  \<^verbatim>\<open>Song\<close>, adds three derived columns in \<^verbatim>\<open>_process_songs\<close>, and answers every
  query from that frame.

  Conventions of the model.
  \<^item> A data frame is the list of its rows, in row order.  Every cell is present: a frame
    with missing cells (NaN, NaT) is outside the model.
  \<^item> A Python \<^verbatim>\<open>str\<close> is a list of code points below 256, so a \<^typ>\<open>string\<close>.
  \<^item> A \<^verbatim>\<open>Timestamp\<close> is its count of nanoseconds since 1970-01-01, an \<^typ>\<open>int\<close>;
    \<^verbatim>\<open>NaT\<close>, where a reduction of an empty column produces it, is \<open>None\<close>.
  \<^item> \<^verbatim>\<open>Series.unique()\<close> of the \<^verbatim>\<open>Date\<close> column yields \<^verbatim>\<open>Timestamp\<close> values, as pandas 2
    does, so that \<^verbatim>\<open>date.strftime\<close> in the export is the method of a \<^verbatim>\<open>Timestamp\<close>.
  \<^item> A call that raises returns \<open>Inl\<close> of the error, a call that returns \<open>v\<close> returns
    \<open>Inr v\<close>.
  \<^item> Floating point numbers are exact rationals; \<^verbatim>\<open>round(1)\<close> rounds the exact value to
    one decimal, ties to the even digit as numpy does.
  \<^item> \<^verbatim>\<open>sort_values\<close> is run with its default \<^verbatim>\<open>kind='quicksort'\<close>, which numpy
    executes as an insertion sort on short arrays; the model sorts stably.  In descending
    order pandas reverses the column, sorts it ascending and reverses the result.
\<close>

subsection \<open>Errors\<close>

datatype error = ValueError | IndexError | TypeError | ReError

subsection \<open>Text\<close>

text \<open>\<^verbatim>\<open>str.isspace\<close> on one code point below 256.\<close>

definition isspace :: "char \<Rightarrow> bool" where
  "isspace c = (of_char c \<in> {9, 10, 11, 12, 13, 28, 29, 30, 31, 32, 133, 160 :: nat})"

text \<open>\<^verbatim>\<open>str.strip()\<close>: leading and trailing whitespace removed.\<close>

definition strip :: "string \<Rightarrow> string" where
  "strip s = rev (dropWhile isspace (rev (dropWhile isspace s)))"

text \<open>
  Lower case of one code point below 256: the letters A to Z and the accented capitals
  0xC0 to 0xDE except the multiplication sign 0xD7 move up by 32.
\<close>

definition lower_char :: "char \<Rightarrow> char" where
  "lower_char c =
     (let n = (of_char c :: nat)
      in if (65 \<le> n \<and> n \<le> 90) \<or> (192 \<le> n \<and> n \<le> 222 \<and> n \<noteq> 215)
         then char_of (n + 32) else c)"

definition lower :: "string \<Rightarrow> string" where
  "lower s = map lower_char s"

subsection \<open>Regular expressions\<close>

text \<open>
  \<^verbatim>\<open>_process_songs\<close> deletes every match of the pattern \<^verbatim>\<open>\(.*\)\<close>.  A match starts at
  an opening parenthesis; \<^verbatim>\<open>.*\<close> is greedy and does not cross a line feed, so the match
  ends at the last closing parenthesis before the end of the line.  \<open>paren_span cs\<close>
  reads the text after an opening parenthesis and gives the number of characters up to
  and including that closing parenthesis, or \<open>None\<close> when the line has none.
\<close>

fun paren_span :: "string \<Rightarrow> nat option" where
  "paren_span [] = None"
| "paren_span (c # cs) =
     (if c = CHR 0x0A then None
      else (case paren_span cs of
              Some k \<Rightarrow> Some (Suc k)
            | None \<Rightarrow> if c = CHR '')'' then Some 1 else None))"

text \<open>
  \<^verbatim>\<open>re.sub(r'\(.*\)', '', s)\<close>, scanning from the left.  The first argument counts the
  characters of the current match that are still to be dropped.
\<close>

fun sub_parens :: "nat \<Rightarrow> string \<Rightarrow> string" where
  "sub_parens _ [] = []"
| "sub_parens (Suc k) (c # cs) = sub_parens k cs"
| "sub_parens 0 (c # cs) =
     (if c = CHR ''(''
      then (case paren_span cs of
              Some k \<Rightarrow> sub_parens k cs
            | None \<Rightarrow> c # sub_parens 0 cs)
      else c # sub_parens 0 cs)"

text \<open>
  The patterns given to \<^verbatim>\<open>str.contains\<close>.  The model reads the patterns built from
  ordinary characters, the dot and the bar: alternatives separated by \<^verbatim>\<open>|\<close>, each a
  sequence of atoms.  With \<^verbatim>\<open>re.IGNORECASE\<close> a character of the pattern matches the
  characters with the same lower case; the dot matches everything but a line feed.
\<close>

datatype atom = Lit char | AnyChar

definition special_chars :: "char list" where
  "special_chars = [CHR 0x5C, CHR ''^'', CHR ''$'', CHR ''*'', CHR ''+'', CHR ''?'',
                    CHR ''{'', CHR ''}'', CHR ''['', CHR '']'', CHR ''('', CHR '')'']"

definition in_fragment :: "string \<Rightarrow> bool" where
  "in_fragment pat = list_all (\<lambda>c. c \<notin> set special_chars) pat"

definition to_atom :: "char \<Rightarrow> atom" where
  "to_atom c = (if c = CHR ''.'' then AnyChar else Lit c)"

fun parse_alternatives :: "string \<Rightarrow> atom list list" where
  "parse_alternatives [] = [[]]"
| "parse_alternatives (c # cs) =
     (case parse_alternatives cs of
        [] \<Rightarrow> [[]]
      | b # bs \<Rightarrow> if c = CHR ''|'' then [] # b # bs else (to_atom c # b) # bs)"

fun match_atom :: "atom \<Rightarrow> char \<Rightarrow> bool" where
  "match_atom (Lit p) c = (lower_char c = lower_char p)"
| "match_atom AnyChar c = (c \<noteq> CHR 0x0A)"

text \<open>A sequence of atoms matches at the start of the text.\<close>

fun match_here :: "atom list \<Rightarrow> string \<Rightarrow> bool" where
  "match_here [] s = True"
| "match_here (a # as) [] = False"
| "match_here (a # as) (c # cs) = (match_atom a c \<and> match_here as cs)"

text \<open>\<^verbatim>\<open>pattern.search(s) is not None\<close>: some alternative matches at some position.\<close>

fun re_search :: "atom list list \<Rightarrow> string \<Rightarrow> bool" where
  "re_search r [] = list_ex (\<lambda>b. match_here b []) r"
| "re_search r (c # cs) = (list_ex (\<lambda>b. match_here b (c # cs)) r \<or> re_search r cs)"

text \<open>
  \<^verbatim>\<open>re.compile(pat, re.IGNORECASE)\<close>, as \<^verbatim>\<open>str.contains(pat, case=False)\<close> calls it
  (\<^verbatim>\<open>regex=True\<close> is the default).  It raises on a malformed pattern and otherwise
  gives a matcher.  Python's \<^verbatim>\<open>re\<close> on a pattern with any other special character is
  the parameter \<open>re_other\<close>.
\<close>

type_synonym matcher = "string \<Rightarrow> bool"

definition re_compile :: "(string \<Rightarrow> error + matcher) \<Rightarrow> string \<Rightarrow> error + matcher" where
  "re_compile re_other pat =
     (if in_fragment pat then Inr (re_search (parse_alternatives pat)) else re_other pat)"

subsection \<open>Numbers\<close>

text \<open>Rounding to the nearest integer, a tie to the even neighbour.\<close>

definition round_half_even :: "rat \<Rightarrow> int" where
  "round_half_even x =
     (let f = \<lfloor>x\<rfloor>; d = x - of_int f
      in if d < 1 / 2 then f
         else if 1 / 2 < d then f + 1
         else if even f then f else f + 1)"

text \<open>\<^verbatim>\<open>Series.round(1)\<close> on one value.\<close>

definition round1 :: "rat \<Rightarrow> rat" where
  "round1 x = of_int (round_half_even (x * 10)) / 10"

subsection \<open>Dates\<close>

text \<open>
  \<^verbatim>\<open>Timestamp.strftime('%Y-%m-%d')\<close>: the civil date of the day the instant falls in,
  the year on four digits, month and day on two.
\<close>

definition digit :: "int \<Rightarrow> char" where
  "digit k = char_of (48 + nat k)"

definition digits2 :: "int \<Rightarrow> string" where
  "digits2 k = [digit (k div 10 mod 10), digit (k mod 10)]"

definition digits4 :: "int \<Rightarrow> string" where
  "digits4 k = digits2 (k div 100) @ digits2 (k mod 100)"

definition civil_from_days :: "int \<Rightarrow> int \<times> int \<times> int" where
  "civil_from_days days =
     (let z = days + 719468;
          era = z div 146097;
          doe = z mod 146097;
          yoe = (doe - doe div 1460 + doe div 36524 - doe div 146096) div 365;
          doy = doe - (365 * yoe + yoe div 4 - yoe div 100);
          mp = (5 * doy + 2) div 153;
          d = doy - (153 * mp + 2) div 5 + 1;
          m = (if mp < 10 then mp + 3 else mp - 9);
          y = yoe + era * 400 + (if m \<le> 2 then 1 else 0)
      in (y, m, d))"

definition format_ymd :: "int \<Rightarrow> string" where
  "format_ymd ts =
     (case civil_from_days (ts div 86400000000000) of
        (y, m, d) \<Rightarrow> digits4 y @ ''-'' @ digits2 m @ ''-'' @ digits2 d)"

text \<open>\<^verbatim>\<open>strftime\<close> of the result of a reduction: \<^verbatim>\<open>NaT.strftime\<close> raises \<^verbatim>\<open>ValueError\<close>.\<close>

definition strftime :: "int option \<Rightarrow> error + string" where
  "strftime ts = (case ts of None \<Rightarrow> Inl ValueError | Some t \<Rightarrow> Inr (format_ymd t))"

subsection \<open>The table\<close>

record raw_row =
  Date :: int
  Venue :: string
  Song :: string

record row = raw_row +
  clean_song :: string
  is_cover :: bool
  is_special :: bool

text \<open>
  \<^verbatim>\<open>_process_songs\<close>: the three derived columns.  Both patterns of \<^verbatim>\<open>str.contains\<close>
  are constants free of special characters other than the bar.
\<close>

definition process_songs :: "raw_row list \<Rightarrow> row list" where
  "process_songs df =
     map (\<lambda>r. \<lparr>Date = Date r, Venue = Venue r, Song = Song r,
               clean_song = strip (sub_parens 0 (Song r)),
               is_cover = re_search (parse_alternatives ''cover'') (Song r),
               is_special =
                 re_search (parse_alternatives ''first time|dedicated|with Sadler|bluegrass'')
                   (Song r)\<rparr>) df"

subsection \<open>Column operations\<close>

text \<open>\<^verbatim>\<open>Series.unique()\<close>: the distinct values in order of first appearance.\<close>

definition unique :: "'a list \<Rightarrow> 'a list" where
  "unique xs = rev (remdups (rev xs))"

text \<open>\<^verbatim>\<open>Series.nunique()\<close>.\<close>

definition nunique :: "('r \<Rightarrow> 'a) \<Rightarrow> 'r list \<Rightarrow> nat" where
  "nunique col df = length (remdups (map col df))"

text \<open>\<^verbatim>\<open>Series.min()\<close> and \<^verbatim>\<open>Series.max()\<close> of a datetime column: \<^verbatim>\<open>NaT\<close> when empty.\<close>

fun series_min :: "int list \<Rightarrow> int option" where
  "series_min [] = None"
| "series_min (x # xs) = Some (fold min xs x)"

fun series_max :: "int list \<Rightarrow> int option" where
  "series_max [] = None"
| "series_max (x # xs) = Some (fold max xs x)"


text \<open>\<^verbatim>\<open>df.groupby(col)\<close>: the group keys, sorted ascending (\<^verbatim>\<open>sort=True\<close>).\<close>

definition group_keys :: "('r \<Rightarrow> string) \<Rightarrow> 'r list \<Rightarrow> string list" where
  "group_keys col df = sort (remdups (map col df))"

definition group :: "('r \<Rightarrow> string) \<Rightarrow> 'r list \<Rightarrow> string \<Rightarrow> 'r list" where
  "group col df k = filter (\<lambda>r. col r = k) df"

text \<open>\<^verbatim>\<open>df.groupby(col).size()\<close>: each key with the number of rows of its group.\<close>

definition groupby_size :: "('r \<Rightarrow> string) \<Rightarrow> 'r list \<Rightarrow> (string \<times> nat) list" where
  "groupby_size col df = map (\<lambda>k. (k, length (group col df k))) (group_keys col df)"

text \<open>\<^verbatim>\<open>sort_values(by)\<close> and \<^verbatim>\<open>sort_values(by, ascending=False)\<close>.\<close>

definition sort_values :: "('r \<Rightarrow> 'k::linorder) \<Rightarrow> 'r list \<Rightarrow> 'r list" where
  "sort_values by df = sort_key by df"

definition sort_values_desc :: "('r \<Rightarrow> 'k::linorder) \<Rightarrow> 'r list \<Rightarrow> 'r list" where
  "sort_values_desc by df = rev (sort_key by (rev df))"

text \<open>
  \<^verbatim>\<open>head(n)\<close> is \<^verbatim>\<open>iloc[:n]\<close>: the first \<open>n\<close> rows, and for a negative \<open>n\<close> all rows
  but the last \<open>-n\<close>.
\<close>

definition head :: "int \<Rightarrow> 'a list \<Rightarrow> 'a list" where
  "head n xs = (if 0 \<le> n then take (nat n) xs else take (length xs - nat (- n)) xs)"

subsection \<open>The queries\<close>

record show_range =
  first_show :: string
  last_show :: string

record stats =
  total_shows :: nat
  total_songs :: nat
  unique_songs :: nat
  total_venues :: nat
  date_range :: show_range
  covers :: nat
  special_performances :: nat

text \<open>
  \<^verbatim>\<open>get_stats\<close>.  The dictionary is built entry by entry; the counts cannot raise, the
  two \<^verbatim>\<open>strftime\<close> calls of \<^verbatim>\<open>date_range\<close> can.
\<close>

definition get_stats :: "row list \<Rightarrow> error + stats" where
  "get_stats df =
     (case strftime (series_min (map Date df)) of
        Inl e \<Rightarrow> Inl e
      | Inr first_s \<Rightarrow>
          (case strftime (series_max (map Date df)) of
             Inl e \<Rightarrow> Inl e
           | Inr last_s \<Rightarrow>
               Inr \<lparr>total_shows = nunique Date df,
                    total_songs = length df,
                    unique_songs = nunique clean_song df,
                    total_venues = nunique Venue df,
                    date_range = \<lparr>first_show = first_s, last_show = last_s\<rparr>,
                    covers = length (filter is_cover df),
                    special_performances = length (filter is_special df)\<rparr>))"

record song_count =
  sc_clean_song :: string
  play_count :: nat
  percentage :: rat

text \<open>
  \<^verbatim>\<open>get_top_songs\<close>: \<open>song_counts\<close> is the frame of the first two lines,
  \<open>ranking\<close> the sorted frame before \<^verbatim>\<open>head(n)\<close>.
\<close>

definition song_counts :: "row list \<Rightarrow> song_count list" where
  "song_counts df =
     map (\<lambda>(k, c). \<lparr>sc_clean_song = k, play_count = c,
                    percentage = round1 (of_nat c / of_nat (nunique Date df) * 100)\<rparr>)
       (groupby_size clean_song df)"

definition ranking :: "row list \<Rightarrow> song_count list" where
  "ranking df = sort_values_desc play_count (song_counts df)"

definition get_top_songs :: "row list \<Rightarrow> int \<Rightarrow> error + song_count list" where
  "get_top_songs df n = Inr (head n (ranking df))"

text \<open>The call without an argument: \<^verbatim>\<open>n: int = 10\<close>.\<close>

definition get_top_songs_default :: "row list \<Rightarrow> error + song_count list" where
  "get_top_songs_default df = get_top_songs df 10"

text \<open>
  \<^verbatim>\<open>get_show_setlist\<close>.  \<^verbatim>\<open>pd.to_datetime\<close> on the argument is the parameter
  \<open>to_datetime\<close>: it raises on text that is no date.
\<close>

definition get_show_setlist ::
    "(string \<Rightarrow> error + int) \<Rightarrow> row list \<Rightarrow> string \<Rightarrow> error + string list" where
  "get_show_setlist to_datetime df date =
     (case to_datetime date of
        Inl e \<Rightarrow> Inl e
      | Inr d \<Rightarrow> Inr (map Song (filter (\<lambda>r. Date r = d) df)))"

text \<open>\<^verbatim>\<open>get_rare_songs\<close>.\<close>

definition get_rare_songs :: "row list \<Rightarrow> error + string list" where
  "get_rare_songs df =
     (let song_counts = groupby_size clean_song df;
          rare_songs = map fst (filter (\<lambda>(k, c). c = 1) song_counts)
      in Inr (unique (map Song (filter (\<lambda>r. clean_song r \<in> set rare_songs) df))))"

record venue_stat =
  vs_venue :: string
  vs_shows :: nat
  vs_total_songs :: nat
  avg_songs_per_show :: rat



text \<open>\<^verbatim>\<open>find_song_appearances\<close>: the matching rows, three columns, sorted by date.\<close>

definition find_song_appearances ::
    "(string \<Rightarrow> error + matcher) \<Rightarrow> row list \<Rightarrow> string \<Rightarrow> error + raw_row list" where
  "find_song_appearances re_other df song_name =
     (case re_compile re_other song_name of
        Inl e \<Rightarrow> Inl e
      | Inr m \<Rightarrow>
          Inr (sort_values Date
                 (map (\<lambda>r. \<lparr>Date = Date r, Venue = Venue r, Song = Song r\<rparr>)
                    (filter (\<lambda>r. m (clean_song r)) df))))"

subsection \<open>The export\<close>

record show_entry =
  se_date :: string
  se_venue :: string
  songs :: "string list"
  song_count :: nat

record export_doc =
  ex_shows :: "show_entry list"
  song_frequency :: "song_count list"
  venue_stats :: "venue_stat list"
  rare_songs :: "string list"
  ex_stats :: stats





subsection \<open>Example inputs\<close>

text \<open>
  Two shows: 2023-01-01 at VenueA with two songs, 2023-06-01 at VenueB with one.
\<close>

definition example_rows :: "raw_row list" where
  "example_rows =
     [\<lparr>Date = 1672531200000000000, Venue = ''VenueA'', Song = ''Song1''\<rparr>,
      \<lparr>Date = 1672531200000000000, Venue = ''VenueA'', Song = ''Song2 (cover)''\<rparr>,
      \<lparr>Date = 1685577600000000000, Venue = ''VenueB'', Song = ''Song1''\<rparr>]"

text \<open>A date parser that knows two dates, for the concrete instances below.\<close>

definition example_to_datetime :: "string \<Rightarrow> error + int" where
  "example_to_datetime s =
     (if s = ''2023-01-01'' then Inr 1672531200000000000
      else if s = ''2024-02-29'' then Inr 1709164800000000000
      else Inl ValueError)"

text \<open>A table where one song is played twice in the only show.\<close>

definition repeat_rows :: "raw_row list" where
  "repeat_rows =
     [\<lparr>Date = 1672531200000000000, Venue = ''VenueA'', Song = ''Song1''\<rparr>,
      \<lparr>Date = 1672531200000000000, Venue = ''VenueA'', Song = ''Song1 (reprise)''\<rparr>]"

text \<open>A table with one song, Stockholm.\<close>

definition stockholm_rows :: "raw_row list" where
  "stockholm_rows =
     [\<lparr>Date = 1672531200000000000, Venue = ''VenueA'', Song = ''Stockholm''\<rparr>]"

text \<open>A row whose song text runs over two lines, and a row with two groups on one line.\<close>

definition two_line_rows :: "raw_row list" where
  "two_line_rows =
     [\<lparr>Date = 1672531200000000000, Venue = ''VenueA'',
       Song = ''Song3 (live'' @ [CHR 0x0A] @ ''2023)''\<rparr>]"

definition two_group_rows :: "raw_row list" where
  "two_group_rows =
     [\<lparr>Date = 1672531200000000000, Venue = ''VenueA'',
       Song = ''Song4 (live) at dawn (cover) ''\<rparr>]"

subsection \<open>Notions for the properties\<close>


text \<open>No closing parenthesis before the end of the first line.\<close>

definition no_close :: "string \<Rightarrow> bool" where
  "no_close s = (CHR '')'' \<notin> set (takeWhile (\<lambda>c. c \<noteq> CHR 0x0A) s))"

text \<open>No opening parenthesis with a closing one later on its line.\<close>

fun no_span :: "string \<Rightarrow> bool" where
  "no_span [] = True"
| "no_span (c # cs) = ((c = CHR ''('' \<longrightarrow> no_close cs) \<and> no_span cs)"

text \<open>
  Following the claim's words: the text with the span from its first opening parenthesis
  to its last closing parenthesis deleted, when that closing parenthesis comes after the
  opening one.
\<close>

definition delete_greedy_span :: "string \<Rightarrow> string" where
  "delete_greedy_span s =
     (let pre = takeWhile (\<lambda>c. c \<noteq> CHR ''('') s;
          rest = dropWhile (\<lambda>c. c \<noteq> CHR ''('') s
      in if CHR '')'' \<in> set rest
         then pre @ rev (takeWhile (\<lambda>c. c \<noteq> CHR '')'') (rev rest))
         else s)"

section \<open>Properties\<close>

subsection \<open>The example table\<close>

text \<open>
  Claim C4.  On the example table \<^verbatim>\<open>get_stats()\<close> gives two shows, three songs, two
  unique songs and one cover; \<^verbatim>\<open>get_top_songs(1)\<close> gives the single entry Song1 with
  play count 2 and percentage 100.0; \<^verbatim>\<open>get_rare_songs()\<close> gives the one raw title
  \<^verbatim>\<open>Song2 (cover)\<close>.
\<close>

theorem example_dataset:
  "get_stats (process_songs example_rows) =
     Inr \<lparr>total_shows = 2, total_songs = 3, unique_songs = 2, total_venues = 2,
          date_range = \<lparr>first_show = ''2023-01-01'', last_show = ''2023-06-01''\<rparr>,
          covers = 1, special_performances = 0\<rparr> \<and>
   get_top_songs (process_songs example_rows) 1 =
     Inr [\<lparr>sc_clean_song = ''Song1'', play_count = 2, percentage = 100\<rparr>] \<and>
   get_rare_songs (process_songs example_rows) = Inr [''Song2 (cover)'']"
  by code_simp

subsection \<open>The setlist of one show\<close>


lemma filter_process_songs_Date:
  "filter (\<lambda>r. Date r = d) (process_songs raws) = process_songs (filter (\<lambda>r. Date r = d) raws)"
  by (simp add: process_songs_def filter_map comp_def)

lemma process_songs_Song: "map Song (process_songs raws) = map Song raws"
  by (simp add: process_songs_def comp_def)

text \<open>
  Claim C9.  For a date that \<^verbatim>\<open>pd.to_datetime\<close> reads, \<^verbatim>\<open>get_show_setlist\<close> returns the
  raw song texts of the rows with that date, in row order; when no row has the date the
  result is the empty list, not an error.
\<close>

theorem get_show_setlist_rows:
  "to_datetime date = Inr d \<Longrightarrow>
     get_show_setlist to_datetime (process_songs raws) date =
       Inr (map Song (filter (\<lambda>r. Date r = d) raws)) \<and>
     (list_all (\<lambda>r. Date r \<noteq> d) raws \<longrightarrow>
        get_show_setlist to_datetime (process_songs raws) date = Inr [])"
proof -
  assume p: "to_datetime date = Inr d"
  have a: "get_show_setlist to_datetime (process_songs raws) date =
       Inr (map Song (filter (\<lambda>r. Date r = d) raws))"
    by (simp add: get_show_setlist_def p filter_process_songs_Date process_songs_Song)
  have b: "list_all (\<lambda>r. Date r \<noteq> d) raws \<Longrightarrow> filter (\<lambda>r. Date r = d) raws = []"
    by (induction raws) auto
  show ?thesis using a b by simp
qed

theorem get_show_setlist_rows_witness:
  "example_to_datetime ''2023-01-01'' = Inr 1672531200000000000 \<and>
   get_show_setlist example_to_datetime (process_songs example_rows) ''2023-01-01'' =
     Inr [''Song1'', ''Song2 (cover)''] \<and>
   example_to_datetime ''2024-02-29'' = Inr 1709164800000000000 \<and>
   list_all (\<lambda>r. Date r \<noteq> 1709164800000000000) example_rows \<and>
   get_show_setlist example_to_datetime (process_songs example_rows) ''2024-02-29'' = Inr []"
proof -
  have h1: "example_to_datetime ''2023-01-01'' = Inr 1672531200000000000"
    by (simp add: example_to_datetime_def)
  have h2: "example_to_datetime ''2024-02-29'' = Inr 1709164800000000000"
    by (simp add: example_to_datetime_def)
  have h3: "list_all (\<lambda>r. Date r \<noteq> 1709164800000000000) example_rows"
    by (simp add: example_rows_def)
  have e: "map Song (filter (\<lambda>r. Date r = 1672531200000000000) example_rows) =
      [''Song1'', ''Song2 (cover)'']"
    by (simp add: example_rows_def)
  have a: "get_show_setlist example_to_datetime (process_songs example_rows) ''2023-01-01'' =
     Inr [''Song1'', ''Song2 (cover)'']"
    using get_show_setlist_rows [of example_to_datetime "''2023-01-01''", OF h1, of example_rows]
    by (simp only: e)
  have b: "get_show_setlist example_to_datetime (process_songs example_rows) ''2024-02-29'' =
     Inr []"
    using get_show_setlist_rows [of example_to_datetime "''2024-02-29''", OF h2, of example_rows] h3
    by blast
  show ?thesis using h1 h2 h3 a b by blast
qed

subsection \<open>The overall statistics\<close>






subsection \<open>The ranking of songs\<close>

lemma length_group_keys: "length (group_keys col df) = nunique col df"
  by (simp add: group_keys_def nunique_def)

lemma length_ranking: "length (ranking df) = nunique clean_song df"
  by (simp add: ranking_def sort_values_desc_def song_counts_def groupby_size_def
      length_group_keys)

text \<open>
  Claim C2 fails on the code: no call of \<^verbatim>\<open>get_top_songs\<close> raises.  With \<open>n = 0\<close> the
  result is the empty frame, with \<open>n = -1\<close> the ranking without its last entry.
\<close>

theorem get_top_songs_nonpositive_returns:
  "get_top_songs (process_songs example_rows) 0 = Inr [] \<and>
   get_top_songs (process_songs example_rows) (- 1) =
     Inr [\<lparr>sc_clean_song = ''Song1'', play_count = 2, percentage = 100\<rparr>]"
  by code_simp

text \<open>
  Claim C2, amended.  \<^verbatim>\<open>get_top_songs(n)\<close> returns for every integer \<open>n\<close>: for \<open>n \<ge> 0\<close>
  the first \<open>n\<close> entries of the ranking, so at most \<open>n\<close> of them, and for \<open>n < 0\<close> the
  ranking without its last \<open>-n\<close> entries.  The ranking has one entry for each distinct
  clean song.  Without an argument \<open>n\<close> is 10.
\<close>

theorem get_top_songs_head:
  "(\<exists>ys. get_top_songs df n = Inr ys \<and>
         (0 \<le> n \<longrightarrow> ys = take (nat n) (ranking df) \<and> length ys \<le> nat n) \<and>
         (n < 0 \<longrightarrow> ys = rev (drop (nat (- n)) (rev (ranking df))))) \<and>
   length (ranking df) = nunique clean_song df \<and>
   get_top_songs_default df = get_top_songs df 10"
proof -
  have a: "0 \<le> n \<Longrightarrow> head n (ranking df) = take (nat n) (ranking df)"
    by (simp add: head_def)
  have b: "n < 0 \<Longrightarrow> head n (ranking df) = rev (drop (nat (- n)) (rev (ranking df)))"
    by (simp add: head_def rev_drop rev_take)
  show ?thesis
    using a b by (simp add: get_top_songs_def get_top_songs_default_def length_ranking)
qed

theorem get_top_songs_head_witness:
  "(0::int) \<le> 1 \<and>
   get_top_songs (process_songs example_rows) 1 =
     Inr (take (nat 1) (ranking (process_songs example_rows))) \<and>
   (- 1 :: int) < 0 \<and>
   get_top_songs (process_songs example_rows) (- 1) =
     Inr (rev (drop (nat (- (- 1))) (rev (ranking (process_songs example_rows)))))"
proof -
  have p: "(0::int) \<le> 1" by simp
  have q: "(- 1 :: int) < 0" by simp
  from get_top_songs_head [of "process_songs example_rows" 1] p
  have a: "get_top_songs (process_songs example_rows) 1 =
     Inr (take (nat 1) (ranking (process_songs example_rows)))"
    by auto
  from get_top_songs_head [of "process_songs example_rows" "- 1"] q
  have b: "get_top_songs (process_songs example_rows) (- 1) =
     Inr (rev (drop (nat (- (- 1))) (rev (ranking (process_songs example_rows)))))"
    by auto
  show ?thesis using p q a b by blast
qed

text \<open>
  What the code computes: the play count of an entry is the number of rows of its clean
  song, and the percentage is that count against the number of distinct dates.
\<close>

lemma song_counts_entries:
  "e \<in> set (song_counts df) \<Longrightarrow>
     play_count e = length (filter (\<lambda>r. clean_song r = sc_clean_song e) df) \<and>
     percentage e = round1 (of_nat (play_count e) / of_nat (nunique Date df) * 100)"
  by (auto simp: song_counts_def groupby_size_def group_def)

lemma set_sort_values_desc: "set (sort_values_desc by xs) = set xs"
  by (simp add: sort_values_desc_def)

lemma set_head_subset: "set (head n xs) \<subseteq> set xs"
  by (auto simp: head_def dest: in_set_takeD)

lemma get_top_songs_entries:
  assumes "get_top_songs df n = Inr ys" and "e \<in> set ys"
  shows "play_count e = length (filter (\<lambda>r. clean_song r = sc_clean_song e) df) \<and>
     percentage e = round1 (of_nat (play_count e) / of_nat (nunique Date df) * 100)"
proof -
  from assms have "e \<in> set (head n (ranking df))" by (auto simp: get_top_songs_def)
  then have "e \<in> set (song_counts df)"
    using set_head_subset [of n "ranking df"] by (auto simp: ranking_def set_sort_values_desc)
  then show ?thesis by (rule song_counts_entries)
qed

text \<open>
  Claim C1 on the code.  The claim takes \<^verbatim>\<open>play_count\<close> for the number of distinct dates
  on which the clean song appears.  The code counts rows: on \<open>repeat_rows\<close>, where Song1
  appears on one date, in two rows, the entry has play count 2 and percentage 200.0.
\<close>

theorem get_top_songs_counts_rows:
  "get_top_songs (process_songs repeat_rows) 10 =
     Inr [\<lparr>sc_clean_song = ''Song1'', play_count = 2, percentage = 200\<rparr>] \<and>
   nunique Date (filter (\<lambda>r. clean_song r = ''Song1'') (process_songs repeat_rows)) = 1 \<and>
   nunique Date (process_songs repeat_rows) = 1"
  by code_simp

subsection \<open>The export\<close>













subsection \<open>Rare songs\<close>

lemma clean_song_process_songs:
  "r \<in> set (process_songs raws) \<Longrightarrow> clean_song r = strip (sub_parens 0 (Song r))"
  by (auto simp: process_songs_def)

lemma set_group_keys: "set (group_keys col df) = col ` set df"
  by (simp add: group_keys_def)

text \<open>The songs that \<^verbatim>\<open>groupby('clean_song').size()\<close> reports with size one.\<close>

lemma rare_keys_iff:
  "k \<in> set (map fst (filter (\<lambda>(k, c). c = 1) (groupby_size clean_song df))) \<longleftrightarrow>
     k \<in> clean_song ` set df \<and> length (filter (\<lambda>q. clean_song q = k) df) = 1"
  by (force simp: groupby_size_def group_def set_group_keys)

lemma filter_rare_rows:
  "filter (\<lambda>r. clean_song r \<in> set (map fst (filter (\<lambda>(k, c). c = 1)
        (groupby_size clean_song df)))) df =
   filter (\<lambda>r. length (filter (\<lambda>q. clean_song q = clean_song r) df) = 1) df"
  by (rule filter_cong) (simp_all only: rare_keys_iff, auto)

text \<open>Rows of clean songs that have a single row differ in their clean song.\<close>

lemma bounded_count_keys_distinct:
  "(\<And>k. count_list (map f ys) k \<le> c k) \<Longrightarrow>
     distinct (map f (filter (\<lambda>r. c (f r) = (1::nat)) ys))"
proof (induction ys)
  case Nil
  then show ?case by simp
next
  case (Cons y ys)
  have le: "count_list (map f ys) k \<le> c k" for k
    using Cons.prems [of k] by (simp split: if_splits)
  have d: "distinct (map f (filter (\<lambda>r. c (f r) = 1) ys))"
    by (rule Cons.IH) (rule le)
  show ?case
  proof (cases "c (f y) = 1")
    case True
    with Cons.prems [of "f y"] have "count_list (map f ys) (f y) = 0" by simp
    then have "f y \<notin> set (map f ys)" by (simp add: count_list_0_iff)
    then have "f y \<notin> f ` set (filter (\<lambda>r. c (f r) = 1) ys)" by auto
    with d True show ?thesis by simp
  next
    case False
    with d show ?thesis by simp
  qed
qed

lemma length_filter_count_list:
  "length (filter (\<lambda>q. f q = k) xs) = count_list (map f xs) k"
  by (induction xs) auto

lemma single_row_keys_distinct:
  "distinct (map f (filter (\<lambda>r. length (filter (\<lambda>q. f q = f r) xs) = 1) xs))"
  using bounded_count_keys_distinct [of f xs "\<lambda>k. count_list (map f xs) k"]
  by (simp add: length_filter_count_list)

lemma unique_distinct: "distinct xs \<Longrightarrow> unique xs = xs"
  by (simp add: unique_def distinct_remdups_id)

text \<open>On a table built by \<^verbatim>\<open>_process_songs\<close> equal raw texts have equal clean songs.\<close>

lemma rare_songs_distinct:
  "distinct (map Song (filter (\<lambda>r. length (filter (\<lambda>q. clean_song q = clean_song r)
      (process_songs raws)) = 1) (process_songs raws)))"
proof -
  let ?df = "process_songs raws"
  let ?rare = "filter (\<lambda>r. length (filter (\<lambda>q. clean_song q = clean_song r) ?df) = 1) ?df"
  have d: "distinct (map clean_song ?rare)" by (rule single_row_keys_distinct)
  have eq: "map clean_song ?rare = map (\<lambda>s. strip (sub_parens 0 s)) (map Song ?rare)"
    unfolding map_map by (rule map_cong) (auto intro: clean_song_process_songs)
  from d have "distinct (map (\<lambda>s. strip (sub_parens 0 s)) (map Song ?rare))"
    unfolding eq .
  then show ?thesis by (rule distinct_map [THEN iffD1, THEN conjunct1])
qed

text \<open>
  Claim C7.  \<^verbatim>\<open>get_rare_songs()\<close> returns the raw song texts of the rows whose clean song
  has exactly one row in the table, in row order: the clean song of every returned text
  has one row, and every row whose clean song has one row contributes its raw text.
\<close>

theorem get_rare_songs_single_rows:
  "\<exists>ys. get_rare_songs (process_songs raws) = Inr ys \<and>
     ys = map Song (filter (\<lambda>r. length (filter (\<lambda>q. clean_song q = clean_song r)
            (process_songs raws)) = 1) (process_songs raws)) \<and>
     (\<forall>s \<in> set ys.
        length (filter (\<lambda>q. clean_song q = strip (sub_parens 0 s)) (process_songs raws)) = 1) \<and>
     (\<forall>r \<in> set (process_songs raws).
        length (filter (\<lambda>q. clean_song q = clean_song r) (process_songs raws)) = 1 \<longrightarrow>
        Song r \<in> set ys)"
proof -
  let ?df = "process_songs raws"
  let ?rare = "filter (\<lambda>r. length (filter (\<lambda>q. clean_song q = clean_song r) ?df) = 1) ?df"
  have u: "unique (map Song ?rare) = map Song ?rare"
    by (rule unique_distinct) (rule rare_songs_distinct)
  have r: "get_rare_songs ?df = Inr (map Song ?rare)"
    unfolding get_rare_songs_def Let_def filter_rare_rows u ..
  have a: "length (filter (\<lambda>q. clean_song q = strip (sub_parens 0 s)) ?df) = 1"
    if "s \<in> set (map Song ?rare)" for s
  proof -
    from that obtain x where x: "x \<in> set ?df" "s = Song x"
      "length (filter (\<lambda>q. clean_song q = clean_song x) ?df) = 1"
      by auto
    from x(1) have "clean_song x = strip (sub_parens 0 (Song x))"
      by (rule clean_song_process_songs)
    with x show ?thesis by simp
  qed
  have b: "Song x \<in> set (map Song ?rare)"
    if "x \<in> set ?df" "length (filter (\<lambda>q. clean_song q = clean_song x) ?df) = 1" for x
    using that by auto
  show ?thesis using r a b by blast
qed

theorem get_rare_songs_single_rows_witness:
  "get_rare_songs (process_songs example_rows) = Inr [''Song2 (cover)''] \<and>
   length (filter (\<lambda>q. clean_song q = strip (sub_parens 0 ''Song2 (cover)''))
     (process_songs example_rows)) = 1"
proof -
  have e: "map Song (filter (\<lambda>r. length (filter (\<lambda>q. clean_song q = clean_song r)
            (process_songs example_rows)) = 1) (process_songs example_rows)) =
      [''Song2 (cover)'']"
    by code_simp
  from get_rare_songs_single_rows [of example_rows]
  obtain ys where ys: "get_rare_songs (process_songs example_rows) = Inr ys"
    "ys = map Song (filter (\<lambda>r. length (filter (\<lambda>q. clean_song q = clean_song r)
            (process_songs example_rows)) = 1) (process_songs example_rows))"
    "\<forall>s \<in> set ys.
        length (filter (\<lambda>q. clean_song q = strip (sub_parens 0 s))
          (process_songs example_rows)) = 1"
    by blast
  from ys(2) e have y: "ys = [''Song2 (cover)'']" by simp
  then have "''Song2 (cover)'' \<in> set ys" by simp
  with ys(3) have l: "length (filter (\<lambda>q. clean_song q = strip (sub_parens 0 ''Song2 (cover)''))
     (process_songs example_rows)) = 1"
    by (rule bspec)
  from ys(1) have "get_rare_songs (process_songs example_rows) = Inr [''Song2 (cover)'']"
    unfolding y .
  then show ?thesis using l by (rule conjI)
qed

subsection \<open>Venue statistics\<close>










subsection \<open>Looking a song up\<close>

text \<open>
  A pattern without special characters, dot or bar is read as one alternative of
  literals, and the search for it is the test for a substring, letter case ignored.
\<close>

lemma parse_alternatives_literal:
  "CHR ''|'' \<notin> set pat \<Longrightarrow> CHR ''.'' \<notin> set pat \<Longrightarrow>
     parse_alternatives pat = [map Lit pat]"
  by (induction pat) (auto simp: to_atom_def)

lemma match_here_literal:
  "match_here (map Lit p) s \<longleftrightarrow> (\<exists>v. lower s = lower p @ v)"
proof (induction p arbitrary: s)
  case Nil
  then show ?case by (simp add: lower_def)
next
  case (Cons a p)
  show ?case
  proof (cases s)
    case Nil
    then show ?thesis by (simp add: lower_def)
  next
    case (Cons c cs)
    have "match_here (map Lit (a # p)) (c # cs) \<longleftrightarrow>
        lower_char c = lower_char a \<and> (\<exists>v. lower cs = lower p @ v)"
      by (simp add: Cons.IH)
    also have "\<dots> \<longleftrightarrow> (\<exists>v. lower (c # cs) = lower (a # p) @ v)"
      by (auto simp: lower_def)
    finally show ?thesis by (simp only: Cons)
  qed
qed

lemma re_search_single:
  "re_search [b] s \<longleftrightarrow> (\<exists>u t. s = u @ t \<and> match_here b t)"
proof (induction s)
  case Nil
  then show ?case by simp
next
  case (Cons c cs)
  have "(\<exists>u t. c # cs = u @ t \<and> match_here b t) \<longleftrightarrow>
      match_here b (c # cs) \<or> (\<exists>u t. cs = u @ t \<and> match_here b t)"
    by (auto simp: Cons_eq_append_conv)
  with Cons show ?case by simp
qed

lemma re_search_literal:
  assumes "CHR ''|'' \<notin> set pat" and "CHR ''.'' \<notin> set pat"
  shows "re_search (parse_alternatives pat) s \<longleftrightarrow> (\<exists>u v. lower s = u @ lower pat @ v)"
proof -
  have "re_search (parse_alternatives pat) s \<longleftrightarrow>
      (\<exists>u t. s = u @ t \<and> (\<exists>v. lower t = lower pat @ v))"
    by (simp add: parse_alternatives_literal [OF assms] re_search_single match_here_literal)
  also have "\<dots> \<longleftrightarrow> (\<exists>u v. lower s = u @ lower pat @ v)"
  proof
    assume "\<exists>u t. s = u @ t \<and> (\<exists>v. lower t = lower pat @ v)"
    then obtain u t v where "s = u @ t" "lower t = lower pat @ v" by blast
    then have "lower s = lower u @ lower pat @ v" by (simp add: lower_def)
    then show "\<exists>u v. lower s = u @ lower pat @ v" by blast
  next
    assume "\<exists>u v. lower s = u @ lower pat @ v"
    then obtain u v where "map lower_char s = u @ (lower pat @ v)" by (auto simp: lower_def)
    then have "\<exists>us ts. s = us @ ts \<and> u = map lower_char us \<and>
        lower pat @ v = map lower_char ts"
      by (simp only: map_eq_append_conv)
    then obtain us ts where "s = us @ ts" "map lower_char ts = lower pat @ v"
      by metis
    then show "\<exists>u t. s = u @ t \<and> (\<exists>v. lower t = lower pat @ v)"
      by (auto simp: lower_def)
  qed
  finally show ?thesis .
qed

text \<open>
  So for an argument made of ordinary characters \<^verbatim>\<open>find_song_appearances\<close> returns the
  rows whose clean song contains it, by ascending date; for the empty text, all rows.
\<close>

lemma find_song_appearances_literal:
  assumes "in_fragment sub" and "CHR ''|'' \<notin> set sub" and "CHR ''.'' \<notin> set sub"
  shows "find_song_appearances re_other df sub =
     Inr (sort_key Date
            (map (\<lambda>r. \<lparr>Date = Date r, Venue = Venue r, Song = Song r\<rparr>)
               (filter (\<lambda>r. \<exists>u v. lower (clean_song r) = u @ lower sub @ v) df)))"
  by (simp add: find_song_appearances_def re_compile_def sort_values_def assms(1)
      re_search_literal [OF assms(2,3)])

lemma find_song_appearances_empty:
  "find_song_appearances re_other df [] =
     Inr (sort_key Date (map (\<lambda>r. \<lparr>Date = Date r, Venue = Venue r, Song = Song r\<rparr>) df))"
proof -
  have "in_fragment []" by (simp add: in_fragment_def)
  moreover have "\<exists>u v. xs = u @ v" for xs :: string
    by (rule exI [of _ "[]"]) simp
  ultimately show ?thesis
    using find_song_appearances_literal [of "[]" re_other df] by (simp add: lower_def)
qed

lemma find_song_appearances_sorted:
  "find_song_appearances re_other df sub = Inr ys \<Longrightarrow> sorted (map Date ys)"
  by (auto simp: find_song_appearances_def sort_values_def split: sum.splits)

text \<open>
  Claim C6 on the code.  The claim takes the argument for a substring.  The code gives it
  to \<^verbatim>\<open>str.contains\<close> as a regular expression: asked for \<^verbatim>\<open>St.\<close>, it returns the row of
  Stockholm, whose clean song does not contain the text \<^verbatim>\<open>St.\<close> in any letter case.
\<close>

theorem find_song_appearances_reads_regex:
  "find_song_appearances re_other (process_songs stockholm_rows) ''St.'' =
     Inr [\<lparr>Date = 1672531200000000000, Venue = ''VenueA'', Song = ''Stockholm''\<rparr>] \<and>
   map clean_song (process_songs stockholm_rows) = [''Stockholm''] \<and>
   \<not> (\<exists>u v. lower ''Stockholm'' = u @ lower ''St.'' @ v)"
proof -
  have f: "in_fragment ''St.''"
    by (simp add: in_fragment_def special_chars_def)
  have p: "process_songs stockholm_rows =
      [\<lparr>Date = 1672531200000000000, Venue = ''VenueA'', Song = ''Stockholm'',
        clean_song = ''Stockholm'', is_cover = False, is_special = False\<rparr>]"
    by code_simp
  have m: "re_search (parse_alternatives ''St.'') ''Stockholm''"
    by code_simp
  have a: "find_song_appearances re_other (process_songs stockholm_rows) ''St.'' =
      Inr [\<lparr>Date = 1672531200000000000, Venue = ''VenueA'', Song = ''Stockholm''\<rparr>]"
    unfolding p using m by (simp add: find_song_appearances_def re_compile_def f sort_values_def)
  have l1: "lower ''Stockholm'' = ''stockholm''" by code_simp
  have l2: "lower ''St.'' = ''st.''" by code_simp
  have n: "\<not> (\<exists>u v. lower ''Stockholm'' = u @ lower ''St.'' @ v)"
  proof
    assume "\<exists>u v. lower ''Stockholm'' = u @ lower ''St.'' @ v"
    then obtain u v where "''stockholm'' = u @ ''st.'' @ v" unfolding l1 l2 by blast
    then have "set ''stockholm'' = set (u @ ''st.'' @ v)" by simp
    then have "CHR ''.'' \<in> set ''stockholm''" by simp
    then show False by simp
  qed
  show ?thesis using a n by (simp add: p)
qed

subsection \<open>Clean song names\<close>

lemma no_close_Cons:
  "no_close (c # cs) \<longleftrightarrow> c = CHR 0x0A \<or> (c \<noteq> CHR '')'' \<and> no_close cs)"
  by (auto simp: no_close_def)

lemma no_close_Nil: "no_close []"
  by (simp add: no_close_def)

lemma paren_span_None: "paren_span cs = None \<Longrightarrow> no_close cs"
  by (induction cs) (auto simp: no_close_Cons no_close_Nil split: if_splits option.splits)

lemma paren_span_Some: "paren_span cs = Some k \<Longrightarrow> no_close (drop k cs)"
proof (induction cs arbitrary: k)
  case Nil
  then show ?case by simp
next
  case (Cons c cs)
  show ?case
  proof (cases "paren_span cs")
    case None
    with Cons.prems have "k = 1" by (simp split: if_splits)
    with None show ?thesis by (simp add: paren_span_None)
  next
    case (Some j)
    with Cons.prems have "k = Suc j" by (simp split: if_splits)
    with Cons.IH [OF Some] show ?thesis by simp
  qed
qed

lemma sub_parens_drop: "sub_parens k s = sub_parens 0 (drop k s)"
proof (induction s arbitrary: k)
  case Nil
  then show ?case by simp
next
  case (Cons c cs)
  then show ?case by (cases k) simp_all
qed

lemma no_close_sub_parens: "no_close (drop k s) \<Longrightarrow> no_close (sub_parens k s)"
proof (induction k s rule: sub_parens.induct)
  case (1 k)
  then show ?case by simp
next
  case (2 k c cs)
  then show ?case by simp
next
  case (3 c cs)
  show ?case
  proof (cases "c = CHR ''(''")
    case True
    with "3.prems" have nc: "no_close cs" by (simp add: no_close_Cons)
    show ?thesis
    proof (cases "paren_span cs")
      case None
      with True "3.IH" nc have "no_close (sub_parens 0 cs)" by simp
      with True None show ?thesis by (simp add: no_close_Cons)
    next
      case (Some j)
      with True "3.IH" paren_span_Some [OF Some] have "no_close (sub_parens j cs)" by simp
      with True Some show ?thesis by simp
    qed
  next
    case False
    show ?thesis
    proof (cases "c = CHR 0x0A")
      case True
      with False show ?thesis by (simp add: no_close_Cons)
    next
      case nl: False
      with "3.prems" have "c \<noteq> CHR '')''" "no_close cs" by (simp_all add: no_close_Cons)
      with False "3.IH" show ?thesis by (simp add: no_close_Cons)
    qed
  qed
qed

lemma no_span_sub_parens: "no_span (sub_parens k s)"
proof (induction k s rule: sub_parens.induct)
  case (1 k)
  then show ?case by simp
next
  case (2 k c cs)
  then show ?case by simp
next
  case (3 c cs)
  show ?case
  proof (cases "c = CHR ''(''")
    case True
    show ?thesis
    proof (cases "paren_span cs")
      case None
      have "no_close (sub_parens 0 cs)"
        using no_close_sub_parens [of 0 cs] paren_span_None [OF None] by simp
      moreover from True None "3.IH" have "no_span (sub_parens 0 cs)" by simp
      ultimately show ?thesis using True None by simp
    next
      case (Some j)
      with True "3.IH" have "no_span (sub_parens j cs)" by simp
      with True Some show ?thesis by simp
    qed
  next
    case False
    with "3.IH" have "no_span (sub_parens 0 cs)" by simp
    with False show ?thesis by simp
  qed
qed

text \<open>The two predicates, written out.\<close>

lemma no_close_iff:
  "no_close s \<longleftrightarrow> \<not> (\<exists>v w. s = v @ CHR '')'' # w \<and> CHR 0x0A \<notin> set v)"
proof
  assume n: "no_close s"
  show "\<not> (\<exists>v w. s = v @ CHR '')'' # w \<and> CHR 0x0A \<notin> set v)"
  proof
    assume "\<exists>v w. s = v @ CHR '')'' # w \<and> CHR 0x0A \<notin> set v"
    then obtain v w where s: "s = v @ CHR '')'' # w" and v: "CHR 0x0A \<notin> set v" by blast
    from v have "takeWhile (\<lambda>c. c \<noteq> CHR 0x0A) s =
        v @ takeWhile (\<lambda>c. c \<noteq> CHR 0x0A) (CHR '')'' # w)"
      unfolding s by (intro takeWhile_append2) auto
    then have "CHR '')'' \<in> set (takeWhile (\<lambda>c. c \<noteq> CHR 0x0A) s)" by simp
    with n show False by (simp add: no_close_def)
  qed
next
  assume a: "\<not> (\<exists>v w. s = v @ CHR '')'' # w \<and> CHR 0x0A \<notin> set v)"
  show "no_close s"
    unfolding no_close_def
  proof
    assume "CHR '')'' \<in> set (takeWhile (\<lambda>c. c \<noteq> CHR 0x0A) s)"
    then obtain v w where t: "takeWhile (\<lambda>c. c \<noteq> CHR 0x0A) s = v @ CHR '')'' # w"
      by (auto dest: split_list)
    have "s = takeWhile (\<lambda>c. c \<noteq> CHR 0x0A) s @ dropWhile (\<lambda>c. c \<noteq> CHR 0x0A) s"
      by simp
    then have s: "s = v @ CHR '')'' # (w @ dropWhile (\<lambda>c. c \<noteq> CHR 0x0A) s)"
      unfolding t by simp
    have "set v \<subseteq> set (takeWhile (\<lambda>c. c \<noteq> CHR 0x0A) s)" unfolding t by auto
    then have "CHR 0x0A \<notin> set v" by (auto dest: set_takeWhileD)
    with s a show False by blast
  qed
qed

lemma no_span_iff:
  "no_span s \<longleftrightarrow>
     \<not> (\<exists>u v w. s = u @ CHR ''('' # v @ CHR '')'' # w \<and> CHR 0x0A \<notin> set v)"
proof (induction s)
  case Nil
  then show ?case by simp
next
  case (Cons c cs)
  have "(\<exists>u v w. c # cs = u @ CHR ''('' # v @ CHR '')'' # w \<and> CHR 0x0A \<notin> set v) \<longleftrightarrow>
      (c = CHR ''('' \<and> (\<exists>v w. cs = v @ CHR '')'' # w \<and> CHR 0x0A \<notin> set v)) \<or>
      (\<exists>u v w. cs = u @ CHR ''('' # v @ CHR '')'' # w \<and> CHR 0x0A \<notin> set v)"
    (is "?l \<longleftrightarrow> ?a \<or> ?b")
  proof
    assume ?l
    then obtain u v w where e: "c # cs = u @ CHR ''('' # v @ CHR '')'' # w"
      and v: "CHR 0x0A \<notin> set v" by blast
    show "?a \<or> ?b"
    proof (cases u)
      case Nil
      with e v have ?a by auto
      then show ?thesis ..
    next
      case (Cons x xs)
      with e v have ?b by auto
      then show ?thesis ..
    qed
  next
    assume "?a \<or> ?b"
    then show ?l
    proof
      assume ?a
      then obtain v w where "c # cs = [] @ CHR ''('' # v @ CHR '')'' # w" "CHR 0x0A \<notin> set v"
        by auto
      then show ?l by blast
    next
      assume ?b
      then obtain u v w where "c # cs = (c # u) @ CHR ''('' # v @ CHR '')'' # w"
        "CHR 0x0A \<notin> set v"
        by auto
      then show ?l by blast
    qed
  qed
  then have "(\<exists>u v w. c # cs = u @ CHR ''('' # v @ CHR '')'' # w \<and> CHR 0x0A \<notin> set v) \<longleftrightarrow>
      (c = CHR ''('' \<and> \<not> no_close cs) \<or> \<not> no_span cs"
    by (simp only: Cons.IH no_close_iff not_not)
  then show ?case by (simp only: no_span.simps) blast
qed

text \<open>\<^verbatim>\<open>strip\<close> cuts a piece out of the text.\<close>

lemma strip_infix:
  "s = takeWhile isspace s @ strip s @ rev (takeWhile isspace (rev (dropWhile isspace s)))"
proof -
  let ?t = "dropWhile isspace s"
  have "rev (dropWhile isspace (rev ?t)) @ rev (takeWhile isspace (rev ?t)) =
      rev (takeWhile isspace (rev ?t) @ dropWhile isspace (rev ?t))"
    by (simp only: rev_append)
  also have "\<dots> = ?t" by (simp only: takeWhile_dropWhile_id rev_rev_ident)
  finally have "?t = strip s @ rev (takeWhile isspace (rev ?t))"
    by (simp only: strip_def)
  moreover have "s = takeWhile isspace s @ ?t" by simp
  ultimately show ?thesis by metis
qed

lemma no_span_strip: "no_span s \<Longrightarrow> no_span (strip s)"
proof -
  assume n: "no_span s"
  obtain a b where s: "s = a @ strip s @ b" using strip_infix by blast
  show "no_span (strip s)"
    unfolding no_span_iff
  proof
    assume "\<exists>u v w. strip s = u @ CHR ''('' # v @ CHR '')'' # w \<and> CHR 0x0A \<notin> set v"
    then obtain u v w where t: "strip s = u @ CHR ''('' # v @ CHR '')'' # w"
      and v: "CHR 0x0A \<notin> set v" by blast
    have "s = (a @ u) @ CHR ''('' # v @ CHR '')'' # (w @ b)"
      by (subst s) (simp add: t)
    with v n show False unfolding no_span_iff by blast
  qed
qed

lemma set_sub_parens: "set (sub_parens k s) \<subseteq> set s"
  by (induction k s rule: sub_parens.induct) (auto split: option.splits)

lemma set_strip: "set (strip s) \<subseteq> set s"
proof -
  obtain a b where "s = a @ strip s @ b" using strip_infix by blast
  then have "set s = set a \<union> set (strip s) \<union> set b" by (metis set_append Un_assoc)
  then show ?thesis by auto
qed

text \<open>On a text of one line the deletion is that of the single greedy span.\<close>

lemma sub_parens_no_open:
  "CHR ''('' \<notin> set p \<Longrightarrow> sub_parens 0 (p @ t) = p @ sub_parens 0 t"
  by (induction p) auto

lemma paren_span_Some_close: "paren_span cs = Some k \<Longrightarrow> CHR '')'' \<in> set cs"
  by (induction cs arbitrary: k) (auto split: if_splits option.splits)

lemma sub_parens_no_close: "CHR '')'' \<notin> set t \<Longrightarrow> sub_parens 0 t = t"
proof (induction t)
  case Nil
  then show ?case by simp
next
  case (Cons c cs)
  then have "paren_span cs = None"
    using paren_span_Some_close [of cs] by (cases "paren_span cs") auto
  with Cons show ?case by simp
qed

lemma paren_span_one_line:
  "CHR 0x0A \<notin> set cs \<Longrightarrow> CHR '')'' \<in> set cs \<Longrightarrow>
     \<exists>k. paren_span cs = Some k \<and>
         drop k cs = rev (takeWhile (\<lambda>c. c \<noteq> CHR '')'') (rev cs))"
proof (induction cs)
  case Nil
  then show ?case by simp
next
  case (Cons c cs)
  from Cons.prems have nl: "c \<noteq> CHR 0x0A" "CHR 0x0A \<notin> set cs" by auto
  show ?case
  proof (cases "CHR '')'' \<in> set cs")
    case True
    from Cons.IH [OF nl(2) True] obtain k where k: "paren_span cs = Some k"
      "drop k cs = rev (takeWhile (\<lambda>c. c \<noteq> CHR '')'') (rev cs))" by blast
    from True have "takeWhile (\<lambda>c. c \<noteq> CHR '')'') (rev cs @ [c]) =
        takeWhile (\<lambda>c. c \<noteq> CHR '')'') (rev cs)"
      by (intro takeWhile_append1 [of "CHR '')''"]) auto
    with k nl show ?thesis by simp
  next
    case False
    with Cons.prems have c: "c = CHR '')''" by auto
    from False have n: "paren_span cs = None"
      using paren_span_Some_close [of cs] by (cases "paren_span cs") auto
    from False have "takeWhile (\<lambda>c. c \<noteq> CHR '')'') (rev cs @ [c]) =
        rev cs @ takeWhile (\<lambda>c. c \<noteq> CHR '')'') [c]"
      by (intro takeWhile_append2) auto
    with c n show ?thesis by simp
  qed
qed

lemma sub_parens_one_line:
  assumes "CHR 0x0A \<notin> set s"
  shows "sub_parens 0 s = delete_greedy_span s"
proof -
  let ?pre = "takeWhile (\<lambda>c. c \<noteq> CHR ''('') s"
  let ?rest = "dropWhile (\<lambda>c. c \<noteq> CHR ''('') s"
  have s: "s = ?pre @ ?rest" by simp
  have pre: "CHR ''('' \<notin> set ?pre" by (auto dest: set_takeWhileD)
  have sub: "sub_parens 0 s = ?pre @ sub_parens 0 ?rest"
    using sub_parens_no_open [OF pre, of ?rest] by simp
  show ?thesis
  proof (cases "CHR '')'' \<in> set ?rest")
    case False
    then have "sub_parens 0 ?rest = ?rest" by (rule sub_parens_no_close)
    with sub False show ?thesis by (simp add: delete_greedy_span_def)
  next
    case True
    then have "?rest \<noteq> []" by (metis empty_iff empty_set)
    then obtain cs where r: "?rest = CHR ''('' # cs"
      using hd_dropWhile [of "\<lambda>c. c \<noteq> CHR ''(''" s] by (cases ?rest) auto
    from True r have cl: "CHR '')'' \<in> set cs" by auto
    have "set cs \<subseteq> set s" using r set_dropWhileD [of _ "\<lambda>c. c \<noteq> CHR ''(''" s] by auto
    with assms have "CHR 0x0A \<notin> set cs" by auto
    from paren_span_one_line [OF this cl] obtain k where k: "paren_span cs = Some k"
      "drop k cs = rev (takeWhile (\<lambda>c. c \<noteq> CHR '')'') (rev cs))" by blast
    have "CHR '')'' \<notin> set (drop k cs)"
      unfolding k(2) by (auto dest: set_takeWhileD)
    then have d: "sub_parens 0 (drop k cs) = drop k cs" by (rule sub_parens_no_close)
    have "sub_parens 0 ?rest = sub_parens k cs" by (simp add: r k(1))
    also have "\<dots> = drop k cs" using sub_parens_drop [of k cs] d by simp
    finally have a: "sub_parens 0 ?rest = rev (takeWhile (\<lambda>c. c \<noteq> CHR '')'') (rev cs))"
      by (simp add: k(2))
    from cl have "takeWhile (\<lambda>c. c \<noteq> CHR '')'') (rev cs @ [CHR ''(''])
        = takeWhile (\<lambda>c. c \<noteq> CHR '')'') (rev cs)"
      by (intro takeWhile_append1 [of "CHR '')''"]) auto
    then have b: "rev (takeWhile (\<lambda>c. c \<noteq> CHR '')'') (rev ?rest)) =
        rev (takeWhile (\<lambda>c. c \<noteq> CHR '')'') (rev cs))"
      by (simp add: r)
    have "delete_greedy_span s = ?pre @ rev (takeWhile (\<lambda>c. c \<noteq> CHR '')'') (rev ?rest))"
      using True by (simp add: delete_greedy_span_def Let_def)
    with sub a b show ?thesis by simp
  qed
qed

text \<open>
  Claim C10 fails on the code for a song text of several lines: \<^verbatim>\<open>.*\<close> does not cross a
  line feed, so an opening parenthesis on one line and a closing one on the next are no
  match, and both stay in the clean song.
\<close>

theorem clean_song_two_lines:
  "map clean_song (process_songs two_line_rows) = [''Song3 (live'' @ [CHR 0x0A] @ ''2023)''] \<and>
   ''Song3 (live'' @ [CHR 0x0A] @ ''2023)'' =
     ''Song3 '' @ ''('' @ (''live'' @ [CHR 0x0A] @ ''2023'') @ '')'' @ []"
  by code_simp

text \<open>
  Claim C10, amended.  For every row of the table, the clean song is the raw song text
  with every match of \<^verbatim>\<open>\(.*\)\<close> deleted and the whitespace at both ends removed, and it
  never contains an opening parenthesis followed on the same line by a closing one.  For
  a raw text of one line the deletion is that of the single span from the first opening
  to the last closing parenthesis, the text between two groups included, and the clean
  song contains no opening parenthesis followed by a closing one at all.
\<close>

theorem clean_song_no_span:
  "r \<in> set (process_songs raws) \<Longrightarrow>
     clean_song r = strip (sub_parens 0 (Song r)) \<and>
     \<not> (\<exists>u v w. clean_song r = u @ ''('' @ v @ '')'' @ w \<and> CHR 0x0A \<notin> set v) \<and>
     (CHR 0x0A \<notin> set (Song r) \<longrightarrow>
        clean_song r = strip (delete_greedy_span (Song r)) \<and>
        \<not> (\<exists>u v w. clean_song r = u @ ''('' @ v @ '')'' @ w))"
proof -
  assume r: "r \<in> set (process_songs raws)"
  then have c: "clean_song r = strip (sub_parens 0 (Song r))"
    by (rule clean_song_process_songs)
  have "no_span (strip (sub_parens 0 (Song r)))"
    by (rule no_span_strip) (rule no_span_sub_parens)
  then have n: "\<not> (\<exists>u v w. clean_song r = u @ ''('' @ v @ '')'' @ w \<and> CHR 0x0A \<notin> set v)"
    unfolding c no_span_iff by simp
  have o: "clean_song r = strip (delete_greedy_span (Song r)) \<and>
        \<not> (\<exists>u v w. clean_song r = u @ ''('' @ v @ '')'' @ w)"
    if l: "CHR 0x0A \<notin> set (Song r)"
  proof
    show "clean_song r = strip (delete_greedy_span (Song r))"
      by (simp only: c sub_parens_one_line [OF l])
    show "\<not> (\<exists>u v w. clean_song r = u @ ''('' @ v @ '')'' @ w)"
    proof
      assume "\<exists>u v w. clean_song r = u @ ''('' @ v @ '')'' @ w"
      then obtain u v w where e: "clean_song r = u @ ''('' @ v @ '')'' @ w" by blast
      have "set (clean_song r) \<subseteq> set (Song r)"
        unfolding c using set_strip set_sub_parens by blast
      with l have "CHR 0x0A \<notin> set (clean_song r)" by blast
      then have "CHR 0x0A \<notin> set v" unfolding e by simp
      with e n show False by blast
    qed
  qed
  show ?thesis using c n o by blast
qed

theorem clean_song_no_span_witness:
  "\<lparr>Date = 1672531200000000000, Venue = ''VenueA'', Song = ''Song4 (live) at dawn (cover) '',
     clean_song = ''Song4'', is_cover = True, is_special = False\<rparr>
     \<in> set (process_songs two_group_rows) \<and>
   CHR 0x0A \<notin> set ''Song4 (live) at dawn (cover) '' \<and>
   strip (delete_greedy_span ''Song4 (live) at dawn (cover) '') = ''Song4'' \<and>
   \<not> (\<exists>u v w. ''Song4'' = u @ ''('' @ v @ '')'' @ w)"
proof -
  let ?r = "\<lparr>Date = 1672531200000000000, Venue = ''VenueA'',
     Song = ''Song4 (live) at dawn (cover) '',
     clean_song = ''Song4'', is_cover = True, is_special = False\<rparr>"
  have p: "process_songs two_group_rows = [?r]" by code_simp
  then have m: "?r \<in> set (process_songs two_group_rows)" by simp
  have l: "CHR 0x0A \<notin> set ''Song4 (live) at dawn (cover) ''" by simp
  have cs: "clean_song ?r = ''Song4''" by simp
  have sg: "Song ?r = ''Song4 (live) at dawn (cover) ''" by simp
  have l': "CHR 0x0A \<notin> set (Song ?r)" unfolding sg by (rule l)
  from clean_song_no_span [OF m] l'
  have a: "clean_song ?r = strip (delete_greedy_span (Song ?r))"
    and b: "\<not> (\<exists>u v w. clean_song ?r = u @ ''('' @ v @ '')'' @ w)"
    by blast+
  from a have a': "strip (delete_greedy_span ''Song4 (live) at dawn (cover) '') = ''Song4''"
    unfolding cs sg by (rule sym)
  from b have b': "\<not> (\<exists>u v w. ''Song4'' = u @ ''('' @ v @ '')'' @ w)"
    unfolding cs .
  from m l a' b' show ?thesis by blast
qed

end
